theory Spec2Isabelle
  imports
    Main
    "HOL-Library.Word"
    "HOL-Library.AList"
    "HOL-Library.Sublist"
    "HOL-Library.List_Lexorder"
begin

section \<open>Results of Go calls\<close>

text \<open>
  A Go call either panics, which ends the process, or returns. \<open>Abort\<close> is the panic;
  \<open>Done\<close> carries what the call returned. Go's \<open>error\<close> results are values of the
  type \<open>error\<close>; a \<open>nil\<close> error is \<open>None\<close>.
\<close>

datatype 'a outcome = Abort | Done 'a

datatype error =
    ErrClosed
  | ErrBlockNotExist
  | ErrOutOfSpace
  | ErrorsNew string
  | ErrMFile string
  | ErrUnexpectedEOF

section \<open>Identifiers and the reference codec (package agro)\<close>

type_synonym byte = "8 word"
type_synonym bytes = "byte list"
type_synonym VolumeID = "64 word"
type_synonym IndexID = "64 word"
type_synonym INodeID = "64 word"

record INodeRef =
  Volume :: VolumeID
  INode :: INodeID

text \<open>\<open>BlockRef\<close> embeds \<open>INodeRef\<close> and adds the block index.\<close>

record BlockRef = INodeRef +
  Index :: IndexID

definition INodeRefByteSize :: nat where
  "INodeRefByteSize = 8 * 2"

definition BlockRefByteSize :: nat where
  "BlockRefByteSize = 8 * 3"

text \<open>
  \<open>binary.Write\<close> with \<open>binary.LittleEndian\<close> writes every \<open>uint64\<close> field of a struct,
  in declaration order, as 8 bytes, least significant byte first. \<open>putUint n x\<close> is the
  \<open>n\<close> low bytes of \<open>x\<close> in that order and \<open>getUint\<close> reads such bytes back.
\<close>

fun putUint :: "nat \<Rightarrow> nat \<Rightarrow> bytes" where
  "putUint 0 x = []"
| "putUint (Suc n) x = of_nat (x mod 256) # putUint n (x div 256)"

fun getUint :: "bytes \<Rightarrow> nat" where
  "getUint [] = 0"
| "getUint (b # bs) = unat b + 256 * getUint bs"

definition putUint64 :: "64 word \<Rightarrow> bytes" where
  "putUint64 w = putUint 8 (unat w)"

definition getUint64 :: "bytes \<Rightarrow> 64 word" where
  "getUint64 bs = of_nat (getUint bs)"

definition binary_Write_INodeRef :: "'a INodeRef_scheme \<Rightarrow> bytes" where
  "binary_Write_INodeRef i = putUint64 (Volume i) @ putUint64 (INode i)"

definition binary_Write_BlockRef :: "BlockRef \<Rightarrow> bytes" where
  "binary_Write_BlockRef b =
     putUint64 (Volume b) @ putUint64 (INode b) @ putUint64 (Index b)"

definition INodeRef_ToBytes :: "'a INodeRef_scheme \<Rightarrow> bytes outcome" where
  "INodeRef_ToBytes i =
     (let out = binary_Write_INodeRef i
      in if length out = INodeRefByteSize then Done out else Abort)"

definition BlockRef_ToBytes :: "BlockRef \<Rightarrow> bytes outcome" where
  "BlockRef_ToBytes b =
     (let out = binary_Write_BlockRef b
      in if length out = BlockRefByteSize then Done out else Abort)"

text \<open>
  \<open>binary.Read\<close> into a \<open>BlockRef\<close> first reads 24 bytes from the buffer. With fewer
  than 24 bytes available it returns an error and leaves the target as it was; otherwise
  it decodes the first 24 bytes and leaves the rest of the buffer unread.
\<close>

definition zeroBlockRef :: BlockRef where
  "zeroBlockRef = \<lparr>Volume = 0, INode = 0, Index = 0\<rparr>"

definition binary_Read_BlockRef :: "bytes \<Rightarrow> error + BlockRef" where
  "binary_Read_BlockRef b =
     (if length b < BlockRefByteSize then Inl ErrUnexpectedEOF
      else Inr \<lparr>Volume = getUint64 (take 8 b),
                INode = getUint64 (take 8 (drop 8 b)),
                Index = getUint64 (take 8 (drop 16 b))\<rparr>)"

text \<open>
  \<open>BlockRefFromBytes\<close> starts from the zero \<open>BlockRef\<close>, calls \<open>binary.Read\<close> and
  drops the error that call returns. No branch of it panics.
\<close>

definition BlockRefFromBytes :: "bytes \<Rightarrow> BlockRef outcome" where
  "BlockRefFromBytes b =
     (case binary_Read_BlockRef b of
        Inl err \<Rightarrow> Done zeroBlockRef
      | Inr out \<Rightarrow> Done out)"

definition IsINode :: "BlockRef \<Rightarrow> 'a INodeRef_scheme \<Rightarrow> bool" where
  "IsINode b i = (INode b = INode i \<and> Volume b = Volume i)"

section \<open>MFile: a file of fixed-size slots (package storage)\<close>

text \<open>
  Modelled from the spec: the type \<open>storage.MFile\<close> and its methods \<open>NumBlocks\<close>,
  \<open>GetBlock\<close>, \<open>WriteBlock\<close>, \<open>Flush\<close> and \<open>Close\<close>, which the block store calls;
  package storage is not among the sources of the block store. The specification
  describes an MFile as \<open>N\<close> equally sized slots with slot count, per-slot fetch,
  per-slot overwrite (the bytes written must have the slot size), flush and close, and
  says that calls after close panic. A slot index outside the file is taken to panic as
  well, as an out-of-range slice does in Go. \<open>fault\<close> is the error, if any, that the
  operating system reports when the file is flushed or closed.
\<close>

record MFile =
  blkSize :: nat
  slots :: "bytes list"
  unmapped :: bool
  fault :: "error option"

definition MFile_NumBlocks :: "MFile \<Rightarrow> nat outcome" where
  "MFile_NumBlocks f = (if unmapped f then Abort else Done (length (slots f)))"

definition MFile_GetBlock :: "MFile \<Rightarrow> nat \<Rightarrow> bytes outcome" where
  "MFile_GetBlock f n =
     (if unmapped f then Abort
      else if length (slots f) \<le> n then Abort
      else Done (slots f ! n))"

definition MFile_WriteBlock :: "MFile \<Rightarrow> nat \<Rightarrow> bytes \<Rightarrow> (error option \<times> MFile) outcome" where
  "MFile_WriteBlock f n b =
     (if unmapped f then Abort
      else if length (slots f) \<le> n then Abort
      else if length b = blkSize f then Done (None, f\<lparr>slots := (slots f)[n := b]\<rparr>)
      else Done (Some (ErrMFile ''mfile: wrong block size''), f))"

definition MFile_Flush :: "MFile \<Rightarrow> error option outcome" where
  "MFile_Flush f = (if unmapped f then Abort else Done (fault f))"

definition MFile_Close :: "MFile \<Rightarrow> (error option \<times> MFile) outcome" where
  "MFile_Close f =
     (if unmapped f then Abort
      else case fault f of
             Some e \<Rightarrow> Done (Some e, f)
           | None \<Rightarrow> Done (None, f\<lparr>unmapped := True\<rparr>))"

section \<open>The radix tree (library go-immutable-radix)\<close>

text \<open>
  The tree maps byte strings to slot indices. It is kept as an association list; a
  transaction is the list being built, and \<open>Commit\<close> returns it. \<open>Insert\<close> and
  \<open>Delete\<close> also report whether the key was present. An iterator walks the entries in
  the order of their keys (bytes compared as unsigned numbers, a proper prefix first),
  and \<open>SeekPrefix\<close> restricts it to the keys that start with the given bytes. The
  tree is taken to own its keys: a key that was inserted is not changed by a later
  write to the buffer it was read from.
\<close>

type_synonym Tree = "(bytes \<times> int) list"

definition iradix_New :: Tree where
  "iradix_New = []"

definition Tree_Get :: "Tree \<Rightarrow> bytes \<Rightarrow> int option" where
  "Tree_Get t k = map_of t k"

definition Txn_Insert :: "Tree \<Rightarrow> bytes \<Rightarrow> int \<Rightarrow> Tree \<times> bool" where
  "Txn_Insert t k v =
     (AList.update k v t, case map_of t k of None \<Rightarrow> False | Some old \<Rightarrow> True)"

definition Txn_Delete :: "Tree \<Rightarrow> bytes \<Rightarrow> Tree \<times> bool" where
  "Txn_Delete t k =
     (AList.delete k t, case map_of t k of None \<Rightarrow> False | Some old \<Rightarrow> True)"

definition Tree_Iterator :: "Tree \<Rightarrow> (bytes \<times> int) list" where
  "Tree_Iterator t = sort_key fst t"

definition Iterator_SeekPrefix :: "bytes \<Rightarrow> (bytes \<times> int) list \<Rightarrow> (bytes \<times> int) list" where
  "Iterator_SeekPrefix p es = filter (\<lambda>e. prefix p (fst e)) es"

section \<open>The mfile block store (package block)\<close>

text \<open>
  The fields of \<open>mfileBlock\<close> without its lock; the field \<open>size\<close> is \<open>size_m\<close> here.
\<close>

record mfileBlock =
  data :: MFile
  blockMap :: MFile
  blockTrie :: Tree
  closed :: bool
  lastFree :: int
  size_m :: "64 word"
  dfilename :: string
  mfilename :: string

text \<open>
  Conversions between Go's \<open>int\<close> (64 bits, two's complement) and \<open>uint64\<close>. A
  \<open>uint64\<close> is a natural number below \<open>2 ^ 64\<close>.
\<close>

definition uint64_of_int :: "int \<Rightarrow> nat" where
  "uint64_of_int x = nat (x mod 2 ^ 64)"

definition int_of_uint64 :: "nat \<Rightarrow> int" where
  "int_of_uint64 n =
     (if n mod 2 ^ 64 < 2 ^ 63 then int (n mod 2 ^ 64) else int (n mod 2 ^ 64) - 2 ^ 64)"

definition emptyBlock :: bytes where
  "emptyBlock = replicate BlockRefByteSize 0"

subsection \<open>Opening: \<open>loadTrie\<close> and \<open>newMFileBlockStore\<close>\<close>

function loadTrie_loop :: "MFile \<Rightarrow> nat \<Rightarrow> Tree \<Rightarrow> 64 word \<Rightarrow> (Tree \<times> 64 word) outcome" where
  "loadTrie_loop m i t sz =
     (case MFile_NumBlocks m of
        Abort \<Rightarrow> Abort
      | Done n \<Rightarrow>
          if i < n then
            (case MFile_GetBlock m i of
               Abort \<Rightarrow> Abort
             | Done b \<Rightarrow>
                 if b = emptyBlock then loadTrie_loop m (i + 1) t sz
                 else loadTrie_loop m (i + 1) (fst (Txn_Insert t b (int_of_uint64 i))) (sz + 1))
          else Done (t, sz))"
  by pat_completeness auto
termination
  by (relation "measure (\<lambda>(m, i, t, sz). length (slots m) - i)")
     (auto simp: MFile_NumBlocks_def split: if_splits)

declare loadTrie_loop.simps [simp del]

definition loadTrie :: "MFile \<Rightarrow> (Tree \<times> 64 word \<times> error option) outcome" where
  "loadTrie m =
     (case loadTrie_loop m 0 iradix_New 0 of
        Abort \<Rightarrow> Abort
      | Done (t, sz) \<Rightarrow> Done (t, sz, None))"

record Config =
  DataDir :: string
  StorageSize :: nat

record GlobalMetadata =
  BlockSize :: nat

text \<open>
  \<open>filepath.Join\<close> joins its non-empty elements with a slash (the cleaning of the
  joined path is left out; only the two file names kept in the store depend on it).
\<close>

fun filepath_Join :: "string list \<Rightarrow> string" where
  "filepath_Join [] = []"
| "filepath_Join (e # es) =
     (if e = [] then filepath_Join es
      else if filepath_Join es = [] then e
      else e @ ''/'' @ filepath_Join es)"

text \<open>
  \<open>storage.CreateOrOpenMFile\<close> is a parameter: given a path, a file size and a slot
  size it returns an error or the opened MFile. A zero block size makes the first
  division panic.
\<close>

definition newMFileBlockStore ::
  "(string \<Rightarrow> nat \<Rightarrow> nat \<Rightarrow> error + MFile) \<Rightarrow> string \<Rightarrow> Config \<Rightarrow> GlobalMetadata
     \<Rightarrow> (error + mfileBlock) outcome" where
  "newMFileBlockStore CreateOrOpenMFile name cfg meta =
     (if BlockSize meta = 0 then Abort
      else
        let nBlocks = StorageSize cfg div BlockSize meta;
            dpath = filepath_Join [DataDir cfg, ''block'', ''data-'' @ name @ ''.blk''];
            mpath = filepath_Join [DataDir cfg, ''block'', ''map-'' @ name @ ''.blk'']
        in case CreateOrOpenMFile dpath (StorageSize cfg) (BlockSize meta) of
             Inl e \<Rightarrow> Done (Inl e)
           | Inr d \<Rightarrow>
               (case CreateOrOpenMFile mpath ((nBlocks * BlockRefByteSize) mod 2 ^ 64)
                       BlockRefByteSize of
                  Inl e \<Rightarrow> Done (Inl e)
                | Inr m \<Rightarrow>
                    (case loadTrie m of
                       Abort \<Rightarrow> Abort
                     | Done (trie, sz, Some e) \<Rightarrow> Done (Inl e)
                     | Done (trie, sz, None) \<Rightarrow>
                         (case MFile_NumBlocks m of
                            Abort \<Rightarrow> Abort
                          | Done nm \<Rightarrow>
                              (case MFile_NumBlocks d of
                                 Abort \<Rightarrow> Abort
                               | Done nd \<Rightarrow>
                                   if nm = nd then
                                     Done (Inr \<lparr>data = d, blockMap = m, blockTrie = trie,
                                                closed = False, lastFree = 0, size_m = sz,
                                                dfilename = dpath, mfilename = mpath\<rparr>)
                                   else Abort)))))"

subsection \<open>Counts, flush and close\<close>

definition NumBlocks :: "mfileBlock \<Rightarrow> nat outcome" where
  "NumBlocks m = MFile_NumBlocks (data m)"

definition UsedBlocks :: "mfileBlock \<Rightarrow> 64 word" where
  "UsedBlocks m = size_m m"

definition Flush :: "mfileBlock \<Rightarrow> error option outcome" where
  "Flush m =
     (case MFile_Flush (data m) of
        Abort \<Rightarrow> Abort
      | Done (Some e) \<Rightarrow> Done (Some e)
      | Done None \<Rightarrow>
          (case MFile_Flush (blockMap m) of
             Abort \<Rightarrow> Abort
           | Done (Some e) \<Rightarrow> Done (Some e)
           | Done None \<Rightarrow> Done None))"

text \<open>\<open>close\<close> calls \<open>Flush\<close> and drops the error it returns.\<close>

definition close :: "mfileBlock \<Rightarrow> (error option \<times> mfileBlock) outcome" where
  "close m =
     (case Flush m of
        Abort \<Rightarrow> Abort
      | Done flushed \<Rightarrow>
          (case MFile_Close (data m) of
             Abort \<Rightarrow> Abort
           | Done (Some e, d) \<Rightarrow> Done (Some e, m\<lparr>data := d\<rparr>)
           | Done (None, d) \<Rightarrow>
               (case MFile_Close (blockMap m) of
                  Abort \<Rightarrow> Abort
                | Done (Some e, bm) \<Rightarrow> Done (Some e, m\<lparr>data := d, blockMap := bm\<rparr>)
                | Done (None, bm) \<Rightarrow>
                    Done (None, m\<lparr>data := d, blockMap := bm, closed := True\<rparr>))))"

definition Close :: "mfileBlock \<Rightarrow> (error option \<times> mfileBlock) outcome" where
  "Close m = close m"
subsection \<open>Lookup and the free-slot search\<close>

definition findIndex :: "mfileBlock \<Rightarrow> BlockRef \<Rightarrow> int outcome" where
  "findIndex m s =
     (case BlockRef_ToBytes s of
        Abort \<Rightarrow> Abort
      | Done ident \<Rightarrow>
          (case Tree_Get (blockTrie m) ident of
             Some v \<Rightarrow> Done v
           | None \<Rightarrow> Done (- 1)))"

text \<open>
  The slot probed in round \<open>i\<close> is \<open>(i + uint64(lastFree) + 1) % NumBlocks()\<close>, the sum
  taken in \<open>uint64\<close>.
\<close>

definition probe :: "mfileBlock \<Rightarrow> nat \<Rightarrow> nat \<Rightarrow> nat" where
  "probe m n i = ((i + uint64_of_int (lastFree m) + 1) mod 2 ^ 64) mod n"

function findEmpty_loop :: "mfileBlock \<Rightarrow> nat \<Rightarrow> (int \<times> mfileBlock) outcome" where
  "findEmpty_loop m i =
     (case NumBlocks m of
        Abort \<Rightarrow> Abort
      | Done n \<Rightarrow>
          if i < n then
            (case MFile_GetBlock (blockMap m) (probe m n i) of
               Abort \<Rightarrow> Abort
             | Done b \<Rightarrow>
                 if b = emptyBlock then
                   Done (int_of_uint64 (probe m n i),
                         m\<lparr>lastFree := int_of_uint64 (probe m n i)\<rparr>)
                 else findEmpty_loop m (i + 1))
          else Done (- 1, m))"
  by pat_completeness auto
termination
  by (relation "measure (\<lambda>(m, i). length (slots (data m)) - i)")
     (auto simp: NumBlocks_def MFile_NumBlocks_def split: if_splits)

declare findEmpty_loop.simps [simp del]

definition findEmpty :: "mfileBlock \<Rightarrow> (int \<times> mfileBlock) outcome" where
  "findEmpty m = findEmpty_loop m 0"

text \<open>
  The allocator as the specification words it: the slots in the order of a rotating
  probe that starts one past the hint and wraps modulo the slot count, and the first of
  them that holds 24 zero bytes.
\<close>

definition probeOrder :: "nat \<Rightarrow> nat \<Rightarrow> nat list" where
  "probeOrder hint n = map (\<lambda>i. (hint + 1 + i) mod n) [0..<n]"

definition spec_findEmpty :: "bytes list \<Rightarrow> nat \<Rightarrow> nat option" where
  "spec_findEmpty ss hint = List.find (\<lambda>j. ss ! j = emptyBlock) (probeOrder hint (length ss))"

subsection \<open>Block operations\<close>

definition GetBlock :: "mfileBlock \<Rightarrow> BlockRef \<Rightarrow> (error + bytes) outcome" where
  "GetBlock m s =
     (if closed m then Done (Inl ErrClosed)
      else case findIndex m s of
             Abort \<Rightarrow> Abort
           | Done index \<Rightarrow>
               if index = - 1 then Done (Inl ErrBlockNotExist)
               else (case MFile_GetBlock (data m) (uint64_of_int index) of
                       Abort \<Rightarrow> Abort
                     | Done b \<Rightarrow> Done (Inr b)))"

definition WriteBlock :: "mfileBlock \<Rightarrow> BlockRef \<Rightarrow> bytes \<Rightarrow> (error option \<times> mfileBlock) outcome" where
  "WriteBlock m s payload =
     (if closed m then Done (Some ErrClosed, m)
      else case findEmpty m of
             Abort \<Rightarrow> Abort
           | Done (index, m1) \<Rightarrow>
               if index = - 1 then Done (Some ErrOutOfSpace, m1)
               else (case MFile_WriteBlock (data m1) (uint64_of_int index) payload of
                       Abort \<Rightarrow> Abort
                     | Done (Some e, d) \<Rightarrow> Done (Some e, m1\<lparr>data := d\<rparr>)
                     | Done (None, d) \<Rightarrow>
                         (case BlockRef_ToBytes s of
                            Abort \<Rightarrow> Abort
                          | Done key \<Rightarrow>
                              (case MFile_WriteBlock (blockMap m1) (uint64_of_int index) key of
                                 Abort \<Rightarrow> Abort
                               | Done (Some e, bm) \<Rightarrow>
                                   Done (Some e, m1\<lparr>data := d, blockMap := bm\<rparr>)
                               | Done (None, bm) \<Rightarrow>
                                   (case Txn_Insert (blockTrie m1) key index of
                                      (t, existed) \<Rightarrow>
                                        if existed then
                                          Done (Some (ErrorsNew ''mfile: block already existed?''),
                                                m1\<lparr>data := d, blockMap := bm\<rparr>)
                                        else
                                          Done (None,
                                                m1\<lparr>data := d, blockMap := bm,
                                                   size_m := size_m m1 + 1,
                                                   blockTrie := t\<rparr>))))))"

definition DeleteBlock :: "mfileBlock \<Rightarrow> BlockRef \<Rightarrow> (error option \<times> mfileBlock) outcome" where
  "DeleteBlock m s =
     (if closed m then Done (Some ErrClosed, m)
      else case findIndex m s of
             Abort \<Rightarrow> Abort
           | Done index \<Rightarrow>
               if index = - 1 then Done (Some ErrBlockNotExist, m)
               else (case MFile_WriteBlock (blockMap m) (uint64_of_int index) emptyBlock of
                       Abort \<Rightarrow> Abort
                     | Done (Some e, bm) \<Rightarrow> Done (Some e, m\<lparr>blockMap := bm\<rparr>)
                     | Done (None, bm) \<Rightarrow>
                         (case BlockRef_ToBytes s of
                            Abort \<Rightarrow> Abort
                          | Done key \<Rightarrow>
                              (case Txn_Delete (blockTrie m) key of
                                 (t, existed) \<Rightarrow>
                                   if existed then
                                     Done (None, m\<lparr>blockMap := bm, size_m := size_m m - 1,
                                                    blockTrie := t\<rparr>)
                                   else
                                     Done (Some (ErrorsNew ''mfile: deleting non-existent thing?''),
                                           m\<lparr>blockMap := bm\<rparr>)))))"

text \<open>
  The first loop of \<open>DeleteINodeBlocks\<close> after the collection: one map slot cleared per
  collected value, stopping at the first error.
\<close>

fun clearSlots :: "MFile \<Rightarrow> int list \<Rightarrow> (error option \<times> MFile) outcome" where
  "clearSlots bm [] = Done (None, bm)"
| "clearSlots bm (v # vs) =
     (case MFile_WriteBlock bm (uint64_of_int v) emptyBlock of
        Abort \<Rightarrow> Abort
      | Done (Some e, bm1) \<Rightarrow> Done (Some e, bm1)
      | Done (None, bm1) \<Rightarrow> clearSlots bm1 vs)"

fun deleteKeys :: "Tree \<Rightarrow> bytes list \<Rightarrow> Tree" where
  "deleteKeys t [] = t"
| "deleteKeys t (k # ks) = deleteKeys (fst (Txn_Delete t k)) ks"

definition DeleteINodeBlocks ::
  "mfileBlock \<Rightarrow> 'a INodeRef_scheme \<Rightarrow> (error option \<times> mfileBlock) outcome" where
  "DeleteINodeBlocks m s =
     (if closed m then Done (Some ErrClosed, m)
      else case INodeRef_ToBytes s of
             Abort \<Rightarrow> Abort
           | Done pre \<Rightarrow>
               let found = Iterator_SeekPrefix pre (Tree_Iterator (blockTrie m));
                   keyList = map fst found;
                   deleteList = map snd found
               in (case clearSlots (blockMap m) deleteList of
                     Abort \<Rightarrow> Abort
                   | Done (Some e, bm) \<Rightarrow> Done (Some e, m\<lparr>blockMap := bm\<rparr>)
                   | Done (None, bm) \<Rightarrow>
                       Done (None,
                             m\<lparr>blockMap := bm,
                                size_m := size_m m - of_nat (length deleteList),
                                blockTrie := deleteKeys (blockTrie m) keyList\<rparr>)))"

subsection \<open>The iterator\<close>

record mfileIterator =
  i_tx :: "Tree option"
  i_err :: "error option"
  i_it :: "(bytes \<times> int) list option"
  i_result :: bytes

definition BlockIterator :: "mfileBlock \<Rightarrow> mfileIterator" where
  "BlockIterator m = \<lparr>i_tx = Some (blockTrie m), i_err = None, i_it = None, i_result = []\<rparr>"

definition mfileIterator_Next :: "mfileIterator \<Rightarrow> bool \<times> mfileIterator" where
  "mfileIterator_Next i =
     (case i_err i of
        Some e \<Rightarrow> (False, i)
      | None \<Rightarrow>
          (case i_tx i of
             None \<Rightarrow> (False, i)
           | Some t \<Rightarrow>
               (case (case i_it i of None \<Rightarrow> Tree_Iterator t | Some rest \<Rightarrow> rest) of
                  [] \<Rightarrow> (False, i\<lparr>i_it := Some [], i_result := []\<rparr>)
                | e # rest \<Rightarrow> (True, i\<lparr>i_it := Some rest, i_result := fst e\<rparr>))))"

definition mfileIterator_BlockRef :: "mfileIterator \<Rightarrow> BlockRef outcome" where
  "mfileIterator_BlockRef i = BlockRefFromBytes (i_result i)"

definition mfileIterator_Close :: "mfileIterator \<Rightarrow> error option \<times> mfileIterator" where
  "mfileIterator_Close i = (None, i\<lparr>i_tx := None\<rparr>)"

section \<open>The backend registry (package agro)\<close>

text \<open>
  \<open>blockStores\<close> is a Go map from kind names to constructors, \<open>nil\<close> until the first
  registration. Looking a key up in a \<open>nil\<close> map, or a key the map does not hold,
  gives the \<open>nil\<close> function, and calling that panics.
\<close>

type_synonym 's NewBlockStoreFunc =
  "string \<Rightarrow> Config \<Rightarrow> GlobalMetadata \<Rightarrow> (error + 's) outcome"

type_synonym 's registry = "(string \<rightharpoonup> 's NewBlockStoreFunc) option"

definition registry_lookup :: "'s registry \<Rightarrow> string \<Rightarrow> 's NewBlockStoreFunc option" where
  "registry_lookup reg kind = (case reg of None \<Rightarrow> None | Some tab \<Rightarrow> tab kind)"

definition RegisterBlockStore ::
  "'s registry \<Rightarrow> string \<Rightarrow> 's NewBlockStoreFunc \<Rightarrow> 's registry outcome" where
  "RegisterBlockStore reg name newFunc =
     (let tab = (case reg of None \<Rightarrow> Map.empty | Some tab0 \<Rightarrow> tab0)
      in case tab name of
           Some f \<Rightarrow> Abort
         | None \<Rightarrow> Done (Some (tab(name \<mapsto> newFunc))))"

definition CreateBlockStore ::
  "'s registry \<Rightarrow> string \<Rightarrow> string \<Rightarrow> Config \<Rightarrow> GlobalMetadata \<Rightarrow> (error + 's) outcome" where
  "CreateBlockStore reg kind name cfg gmd =
     (case registry_lookup reg kind of
        None \<Rightarrow> Abort
      | Some f \<Rightarrow> f name cfg gmd)"

text \<open>
  A run of registrations, as the \<open>init\<close> functions of the backends make them one after
  the other; it panics as soon as one of them does.
\<close>

fun registerAll :: "'s registry \<Rightarrow> (string \<times> 's NewBlockStoreFunc) list \<Rightarrow> 's registry outcome" where
  "registerAll reg [] = Done reg"
| "registerAll reg (nf # rest) =
     (case RegisterBlockStore reg (fst nf) (snd nf) of
        Abort \<Rightarrow> Abort
      | Done reg1 \<Rightarrow> registerAll reg1 rest)"

section \<open>Invariants of the specification\<close>

text \<open>
  I4: the used-block counter equals the number of nonzero slots of the map file.
  I5: no two slots of the map file hold the same nonzero key.
\<close>

definition nonzeroSlots :: "mfileBlock \<Rightarrow> bytes list" where
  "nonzeroSlots m = filter (\<lambda>b. b \<noteq> emptyBlock) (slots (blockMap m))"

definition I4 :: "mfileBlock \<Rightarrow> bool" where
  "I4 m = (unat (size_m m) = length (nonzeroSlots m))"

definition I5 :: "mfileBlock \<Rightarrow> bool" where
  "I5 m = distinct (nonzeroSlots m)"

section \<open>Well-formed stores\<close>

text \<open>
  What holds of every store that \<open>newMFileBlockStore\<close> returned and that was not
  closed since: both files are mapped and have the same number of slots (fewer than
  \<open>2 ^ 63\<close>), the map file has slots of 24 bytes, the hint is a Go \<open>int\<close> that is
  not negative, and the trie holds each key once, every key 24 bytes long and every
  value the index of a slot.
\<close>

definition entry_ok :: "nat \<Rightarrow> bytes \<times> int \<Rightarrow> bool" where
  "entry_ok n e = (length (fst e) = BlockRefByteSize \<and> 0 \<le> snd e \<and> snd e < int n)"

definition store_ok :: "mfileBlock \<Rightarrow> bool" where
  "store_ok m =
     (unmapped (data m) = False \<and> unmapped (blockMap m) = False \<and>
      blkSize (blockMap m) = BlockRefByteSize \<and>
      length (slots (data m)) = length (slots (blockMap m)) \<and>
      length (slots (blockMap m)) < 2 ^ 63 \<and>
      0 \<le> lastFree m \<and> lastFree m < 2 ^ 63 \<and>
      list_all (entry_ok (length (slots (blockMap m)))) (blockTrie m) \<and>
      distinct (map fst (blockTrie m)))"

section \<open>A small store, used to run the operations\<close>

text \<open>
  Two slots of two bytes each. \<open>ex_fresh\<close> is \<open>CreateOrOpenMFile\<close> on an empty directory:
  every file is created zero-filled. \<open>ex_key\<close> is the encoding of \<open>ex_ref\<close>.
\<close>

definition ex_cfg :: Config where
  "ex_cfg = \<lparr>DataDir = ''/d'', StorageSize = 4\<rparr>"

definition ex_meta :: GlobalMetadata where
  "ex_meta = \<lparr>BlockSize = 2\<rparr>"

definition ex_fresh :: "string \<Rightarrow> nat \<Rightarrow> nat \<Rightarrow> error + MFile" where
  "ex_fresh path sz blk =
     Inr \<lparr>blkSize = blk, slots = replicate (sz div blk) (replicate blk 0),
          unmapped = False, fault = None\<rparr>"

definition ex_ref :: BlockRef where
  "ex_ref = \<lparr>Volume = 1, INode = 1, Index = 0\<rparr>"

definition ex_ref2 :: BlockRef where
  "ex_ref2 = \<lparr>Volume = 1, INode = 2, Index = 0\<rparr>"

definition ex_inode :: INodeRef where
  "ex_inode = \<lparr>Volume = 1, INode = 1\<rparr>"

definition ex_inode3 :: INodeRef where
  "ex_inode3 = \<lparr>Volume = 3, INode = 3\<rparr>"

definition ex_key :: bytes where
  "ex_key = [1, 0, 0, 0, 0, 0, 0, 0, 1, 0, 0, 0, 0, 0, 0, 0, 0, 0, 0, 0, 0, 0, 0, 0]"

definition ex_key2 :: bytes where
  "ex_key2 = [1, 0, 0, 0, 0, 0, 0, 0, 2, 0, 0, 0, 0, 0, 0, 0, 0, 0, 0, 0, 0, 0, 0, 0]"

definition ex_data :: "bytes list \<Rightarrow> MFile" where
  "ex_data ss = \<lparr>blkSize = 2, slots = ss, unmapped = False, fault = None\<rparr>"

definition ex_map :: "bytes list \<Rightarrow> MFile" where
  "ex_map ss = \<lparr>blkSize = 24, slots = ss, unmapped = False, fault = None\<rparr>"

definition ex_store :: "bytes list \<Rightarrow> bytes list \<Rightarrow> Tree \<Rightarrow> int \<Rightarrow> 64 word \<Rightarrow> mfileBlock" where
  "ex_store ds ms t hint used =
     \<lparr>data = ex_data ds, blockMap = ex_map ms, blockTrie = t, closed = False,
      lastFree = hint, size_m = used,
      dfilename = ''/d/block/data-a.blk'', mfilename = ''/d/block/map-a.blk''\<rparr>"

text \<open>The store after opening on the empty directory, and after one and two writes.\<close>

definition ex_store0 :: mfileBlock where
  "ex_store0 = ex_store [[0, 0], [0, 0]] [emptyBlock, emptyBlock] [] 0 0"

definition ex_store1 :: mfileBlock where
  "ex_store1 = ex_store [[0, 0], [65, 66]] [emptyBlock, ex_key] [(ex_key, 1)] 1 1"

definition ex_store2 :: mfileBlock where
  "ex_store2 =
     ex_store [[67, 68], [65, 66]] [ex_key2, ex_key] [(ex_key, 1), (ex_key2, 0)] 0 2"

text \<open>The store after \<open>ex_ref\<close> has been written to \<open>ex_store1\<close> a second time.\<close>

definition ex_store_dup :: mfileBlock where
  "ex_store_dup = ex_store [[67, 68], [65, 66]] [ex_key, ex_key] [(ex_key, 1)] 0 1"

text \<open>
  \<open>ex_reopen\<close> is \<open>CreateOrOpenMFile\<close> on the directory that holds the two files of
  \<open>ex_store_dup\<close>, and \<open>ex_store_reopened\<close> the store opened on them.
\<close>

definition ex_reopen :: "string \<Rightarrow> nat \<Rightarrow> nat \<Rightarrow> error + MFile" where
  "ex_reopen path sz blk =
     (if path = ''/d/block/map-a.blk'' then Inr (ex_map [ex_key, ex_key])
      else Inr (ex_data [[67, 68], [65, 66]]))"

definition ex_store_reopened :: mfileBlock where
  "ex_store_reopened = ex_store [[67, 68], [65, 66]] [ex_key, ex_key] [(ex_key, 1)] 0 2"

text \<open>\<open>ex_store1\<close> after \<open>Close\<close>.\<close>

definition ex_closed :: mfileBlock where
  "ex_closed =
     ex_store1\<lparr>data := (ex_data [[0, 0], [65, 66]])\<lparr>unmapped := True\<rparr>,
               blockMap := (ex_map [emptyBlock, ex_key])\<lparr>unmapped := True\<rparr>,
               closed := True\<rparr>"


definition ex_ref3 :: BlockRef where
  "ex_ref3 = \<lparr>Volume = 3, INode = 3, Index = 0\<rparr>"

text \<open>The registry after \<open>init\<close> of package block has registered the kind \<open>mfile\<close>.\<close>

definition ex_registry :: "mfileBlock registry" where
  "ex_registry = Some [''mfile'' \<mapsto> newMFileBlockStore ex_fresh]"

section \<open>Codec facts\<close>

lemma length_putUint: "length (putUint n x) = n"
  by (induction n arbitrary: x) auto

lemma getUint_bound: "getUint bs < 256 ^ length bs"
proof (induction bs)
  case Nil
  show ?case by simp
next
  case (Cons b bs)
  have "unat b < 256" using unsigned_less [of b] by simp
  with Cons show ?case by simp
qed

lemma getUint_putUint: "getUint (putUint n x) = x mod 256 ^ n"
proof (induction n arbitrary: x)
  case 0
  show ?case by simp
next
  case (Suc n)
  have "unat (of_nat (x mod 256) :: byte) = x mod 256"
    by (simp add: unat_of_nat)
  with Suc show ?case
    by (simp add: mod_mult2_eq)
qed

lemma putUint_getUint: "putUint (length bs) (getUint bs) = bs"
proof (induction bs)
  case Nil
  show ?case by simp
next
  case (Cons b bs)
  have b: "unat b < 256" using unsigned_less [of b] by simp
  then have "(unat b + 256 * getUint bs) mod 256 = unat b" by simp
  moreover have "(unat b + 256 * getUint bs) div 256 = getUint bs" using b by simp
  ultimately show ?case using Cons by simp
qed

lemma length_putUint64: "length (putUint64 w) = 8"
  by (simp add: putUint64_def length_putUint)

lemma getUint64_putUint64: "getUint64 (putUint64 w) = w"
proof -
  have "unat w < 2 ^ 64" using unsigned_less [of w] by simp
  then have "unat w mod 256 ^ 8 = unat w" by simp
  then show ?thesis
    by (simp add: getUint64_def putUint64_def getUint_putUint)
qed

lemma putUint64_getUint64: "length bs = 8 \<Longrightarrow> putUint64 (getUint64 bs) = bs"
proof -
  assume len: "length bs = 8"
  have "getUint bs < 256 ^ 8" using getUint_bound [of bs] len by simp
  then have "getUint bs < 2 ^ 64" by simp
  then have "unat (of_nat (getUint bs) :: 64 word) = getUint bs"
    by (simp add: unat_of_nat)
  then show ?thesis
    using putUint_getUint [of bs] len by (simp add: getUint64_def putUint64_def)
qed

lemma putUint64_inj: "putUint64 a = putUint64 b \<Longrightarrow> a = b"
  by (metis getUint64_putUint64)

lemma length_binary_Write_BlockRef: "length (binary_Write_BlockRef b) = 24"
  by (simp add: binary_Write_BlockRef_def length_putUint64)

lemma length_binary_Write_INodeRef: "length (binary_Write_INodeRef i) = 16"
  by (simp add: binary_Write_INodeRef_def length_putUint64)

lemma BlockRef_ToBytes_Done: "BlockRef_ToBytes b = Done (binary_Write_BlockRef b)"
  by (simp add: BlockRef_ToBytes_def BlockRefByteSize_def length_binary_Write_BlockRef)

lemma INodeRef_ToBytes_Done: "INodeRef_ToBytes i = Done (binary_Write_INodeRef i)"
  by (simp add: INodeRef_ToBytes_def INodeRefByteSize_def length_binary_Write_INodeRef)

lemma binary_Write_BlockRef_inj:
  "binary_Write_BlockRef a = binary_Write_BlockRef b \<Longrightarrow> a = b"
  by (cases a, cases b)
     (auto simp: binary_Write_BlockRef_def length_putUint64 dest: putUint64_inj)

lemma prefix_INodeRef_BlockRef:
  "prefix (binary_Write_INodeRef i) (binary_Write_BlockRef b) = IsINode b i"
proof -
  have "prefix (putUint64 (Volume i) @ putUint64 (INode i))
          (putUint64 (Volume b) @ putUint64 (INode b) @ putUint64 (Index b))
        = (putUint64 (Volume i) = putUint64 (Volume b) \<and>
           putUint64 (INode i) = putUint64 (INode b))"
    by (simp add: prefix_def length_putUint64) metis
  then show ?thesis
    by (auto simp: binary_Write_INodeRef_def binary_Write_BlockRef_def IsINode_def
          dest: putUint64_inj)
qed

lemma binary_Write_BlockRef_surj:
  assumes "length k = 24"
  shows "\<exists>b. binary_Write_BlockRef b = k"
proof -
  let ?b = "\<lparr>Volume = getUint64 (take 8 k), INode = getUint64 (take 8 (drop 8 k)),
             Index = getUint64 (take 8 (drop 16 k))\<rparr>"
  have "binary_Write_BlockRef ?b = take 8 k @ take 8 (drop 8 k) @ take 8 (drop 16 k)"
    using assms by (simp add: binary_Write_BlockRef_def putUint64_getUint64)
  also have "\<dots> = take 8 k @ take 16 (drop 8 k)"
    by (simp add: take_add [of 8 8 "drop 8 k", simplified])
  also have "\<dots> = take 24 k"
    by (simp add: take_add [of 8 16 k, simplified])
  also have "\<dots> = k" using assms by simp
  finally show ?thesis by blast
qed

section \<open>Running the small store\<close>

lemmas ex_defs = ex_store0_def ex_store1_def ex_store2_def ex_store_def ex_data_def ex_map_def
  ex_cfg_def ex_meta_def ex_fresh_def

lemmas op_defs = findEmpty_def findEmpty_loop.simps loadTrie_loop.simps NumBlocks_def MFile_NumBlocks_def MFile_GetBlock_def
  MFile_WriteBlock_def probe_def uint64_of_int_def int_of_uint64_def Txn_Insert_def
  Txn_Delete_def Tree_Get_def findIndex_def

lemma ex_key_eq: "binary_Write_BlockRef ex_ref = ex_key"
  unfolding binary_Write_BlockRef_def ex_ref_def ex_key_def putUint64_def by code_simp

lemma ex_key2_eq: "binary_Write_BlockRef ex_ref2 = ex_key2"
  unfolding binary_Write_BlockRef_def ex_ref2_def ex_key2_def putUint64_def by code_simp


lemma ex_key_facts:
  "ex_key \<noteq> emptyBlock" "ex_key2 \<noteq> emptyBlock" "ex_key \<noteq> ex_key2" "ex_key2 \<noteq> ex_key"
  "emptyBlock \<noteq> ex_key" "emptyBlock \<noteq> ex_key2"
  "length ex_key = 24" "length ex_key2 = 24" "length emptyBlock = 24"
  by (simp_all add: ex_key_def ex_key2_def emptyBlock_def BlockRefByteSize_def eval_nat_numeral)


lemma replicate_2: "replicate 2 x = [x, x]"
  by (simp add: numeral_2_eq_2)

lemma ex_open: "newMFileBlockStore ex_fresh ''a'' ex_cfg ex_meta = Done (Inr ex_store0)"
  by (simp add: newMFileBlockStore_def loadTrie_def ex_defs op_defs iradix_New_def
        BlockRefByteSize_def replicate_2 Let_def
        flip: emptyBlock_def [unfolded BlockRefByteSize_def, simplified])

lemma ex_write1: "WriteBlock ex_store0 ex_ref [65, 66] = Done (None, ex_store1)"
  by (simp add: WriteBlock_def ex_defs op_defs BlockRef_ToBytes_Done ex_key_eq ex_key_facts)

lemma ex_write2: "WriteBlock ex_store1 ex_ref2 [67, 68] = Done (None, ex_store2)"
  by (simp add: WriteBlock_def ex_defs op_defs BlockRef_ToBytes_Done ex_key2_eq ex_key_facts)

lemma ex_write_dup:
  "WriteBlock ex_store1 ex_ref [67, 68] =
     Done (Some (ErrorsNew ''mfile: block already existed?''), ex_store_dup)"
  by (simp add: WriteBlock_def ex_defs ex_store_dup_def op_defs BlockRef_ToBytes_Done ex_key_eq
        ex_key_facts)

lemma ex_store1_ok: "store_ok ex_store1"
  by (simp add: store_ok_def entry_ok_def ex_defs ex_key_facts BlockRefByteSize_def)

lemma ex_reopen_dup:
  "newMFileBlockStore ex_reopen ''a'' ex_cfg ex_meta = Done (Inr ex_store_reopened)"
  by (simp add: newMFileBlockStore_def loadTrie_def ex_defs ex_reopen_def ex_store_reopened_def
        op_defs iradix_New_def BlockRefByteSize_def Let_def ex_key_facts)

lemma ex_close: "Close ex_store1 = Done (None, ex_closed)"
  by (simp add: Close_def close_def Flush_def MFile_Flush_def MFile_Close_def ex_defs
        ex_closed_def)

lemma ex_store2_ok: "store_ok ex_store2"
  by (simp add: store_ok_def entry_ok_def ex_defs ex_key_facts BlockRefByteSize_def)


section \<open>The free-slot search\<close>

lemma uint64_of_int_of_uint64: "n < 2 ^ 64 \<Longrightarrow> uint64_of_int (int_of_uint64 n) = n"
proof -
  assume n: "n < 2 ^ 64"
  have a: "int n mod 2 ^ 64 = int n" using n by simp
  have "(int n - 2 ^ 64) mod 2 ^ 64 = int n mod 2 ^ 64"
    by (metis minus_mod_self2)
  then show ?thesis using n a
    by (simp add: uint64_of_int_def int_of_uint64_def)
qed

lemma probe_less: "i < n \<Longrightarrow> probe m n i < n"
  by (cases n) (simp_all add: probe_def)

lemma findEmpty_loop_frame:
  "findEmpty_loop m i = Done (index, m1) \<Longrightarrow>
     m1 = m\<lparr>lastFree := lastFree m1\<rparr> \<and>
     (index = - 1 \<or>
      (\<exists>j < length (slots (data m)). j < 2 ^ 64 \<and> index = int_of_uint64 j))"
proof (induction m i rule: findEmpty_loop.induct)
  case (1 m i)
  show ?case
  proof (cases "unmapped (data m)")
    case True
    with "1.prems" show ?thesis
      by (subst (asm) findEmpty_loop.simps) (simp add: NumBlocks_def MFile_NumBlocks_def)
  next
    case False
    let ?n = "length (slots (data m))"
    have nb: "NumBlocks m = Done ?n" using False by (simp add: NumBlocks_def MFile_NumBlocks_def)
    show ?thesis
    proof (cases "i < ?n")
      case lt: True
      then have pl: "probe m ?n i < ?n" by (rule probe_less)
      have p64: "probe m ?n i < 2 ^ 64"
      proof -
        have "probe m ?n i \<le> (i + uint64_of_int (lastFree m) + 1) mod 2 ^ 64"
          unfolding probe_def by (rule mod_less_eq_dividend)
        also have "\<dots> < 2 ^ 64" by simp
        finally show ?thesis .
      qed
      show ?thesis
      proof (cases "MFile_GetBlock (blockMap m) (probe m ?n i)")
        case Abort
        with "1.prems" nb lt show ?thesis
          by (subst (asm) findEmpty_loop.simps) simp
      next
        case (Done b)
        show ?thesis
        proof (cases "b = emptyBlock")
          case True
          with "1.prems" nb lt Done pl p64 show ?thesis
            by (subst (asm) findEmpty_loop.simps) auto
        next
          case False
          with "1.prems" nb lt Done have "findEmpty_loop m (i + 1) = Done (index, m1)"
            by (subst (asm) findEmpty_loop.simps) simp
          from "1.IH" [OF nb lt Done False this] show ?thesis .
        qed
      qed
    next
      case False
      with "1.prems" nb show ?thesis
        by (subst (asm) findEmpty_loop.simps) simp
    qed
  qed
qed


lemma rot_inj_le:
  assumes "i \<le> i'" "i' < n" "(c + i) mod n = (c + i') mod (n::nat)"
  shows "i = i'"
proof (rule ccontr)
  assume "i \<noteq> i'"
  with assms(1) have pos: "0 < i' - i" by simp
  have "c + i \<le> c + i'" using assms(1) by simp
  from mod_eq_dvd_iff_nat [OF this, of n] assms(3)
  have "n dvd (c + i') - (c + i)" by simp
  then have "n dvd i' - i" by simp
  moreover have "i' - i < n" using assms(2) by simp
  ultimately show False using nat_dvd_not_less [OF pos] by blast
qed

lemma rot_inj:
  assumes "i < n" "i' < n" "(c + i) mod n = (c + i') mod (n::nat)"
  shows "i = i'"
proof (cases "i \<le> i'")
  case True
  from rot_inj_le [OF True assms(2) assms(3)] show ?thesis .
next
  case False
  then have "i' \<le> i" by simp
  from rot_inj_le [OF this assms(1) assms(3) [symmetric]] show ?thesis by simp
qed

lemma set_probeOrder: "set (probeOrder h n) = {0..<n}"
proof -
  let ?f = "\<lambda>i. (h + 1 + i) mod n"
  have sub: "?f ` {0..<n} \<subseteq> {0..<n}" by auto
  have "inj_on ?f {0..<n}"
  proof (rule inj_onI)
    fix x y
    assume "x \<in> {0..<n}" "y \<in> {0..<n}" "?f x = ?f y"
    then show "x = y" using rot_inj [of x n y "h + 1"] by simp
  qed
  from endo_inj_surj [OF _ sub this] have "?f ` {0..<n} = {0..<n}" by simp
  then show ?thesis by (simp add: probeOrder_def)
qed

lemma spec_findEmpty_None:
  "(spec_findEmpty ss h = None) = (emptyBlock \<notin> set ss)"
proof -
  have "(spec_findEmpty ss h = None) = (\<forall>j < length ss. ss ! j \<noteq> emptyBlock)"
    by (auto simp: spec_findEmpty_def find_None_iff set_probeOrder)
  also have "\<dots> = (emptyBlock \<notin> set ss)"
    by (auto simp: in_set_conv_nth)
  finally show ?thesis .
qed

lemma spec_findEmpty_Some:
  "spec_findEmpty ss h = Some j \<Longrightarrow> j < length ss \<and> ss ! j = emptyBlock"
  by (auto simp: spec_findEmpty_def find_Some_iff set_probeOrder
        dest!: nth_mem [of _ "probeOrder h (length ss)"])

lemma findEmpty_loop_find:
  assumes d: "\<not> unmapped (data m)" and b: "\<not> unmapped (blockMap m)"
    and n: "length (slots (data m)) = length (slots (blockMap m))"
    and n63: "length (slots (blockMap m)) < 2 ^ 63"
    and h0: "0 \<le> lastFree m" and h63: "lastFree m < 2 ^ 63"
  shows "findEmpty_loop m i =
           (case List.find (\<lambda>j. slots (blockMap m) ! j = emptyBlock)
                   (map (\<lambda>i. (nat (lastFree m) + 1 + i) mod length (slots (blockMap m)))
                      [i..<length (slots (blockMap m))]) of
              None \<Rightarrow> Done (- 1, m)
            | Some j \<Rightarrow> Done (int j, m\<lparr>lastFree := int j\<rparr>))"
  using assms
proof (induction m i rule: findEmpty_loop.induct)
  case (1 m i)
  let ?n = "length (slots (blockMap m))"
  have nb: "NumBlocks m = Done ?n"
    using "1.prems" by (simp add: NumBlocks_def MFile_NumBlocks_def)
  show ?case
  proof (cases "i < ?n")
    case False
    then show ?thesis using nb by (subst findEmpty_loop.simps) simp
  next
    case lt: True
    have hn: "nat (lastFree m) < 2 ^ 63" using "1.prems"(5,6) by (simp add: nat_less_iff)
    have "i + nat (lastFree m) + 1 < 2 ^ 63 + 2 ^ 63"
      using lt "1.prems"(4) hn by linarith
    then have small: "i + nat (lastFree m) + 1 < 2 ^ 64" by simp
    have u: "uint64_of_int (lastFree m) = nat (lastFree m)"
      using "1.prems"(5,6) by (simp add: uint64_of_int_def)
    have pr: "probe m ?n i = (nat (lastFree m) + 1 + i) mod ?n"
      using small by (simp add: probe_def u add.commute add.left_commute)
    have pl: "probe m ?n i < ?n" using lt by (rule probe_less)
    then have conv: "int_of_uint64 (probe m ?n i) = int (probe m ?n i)"
      using "1.prems"(4) by (simp add: int_of_uint64_def)
    have gb: "MFile_GetBlock (blockMap m) (probe m ?n i) = Done (slots (blockMap m) ! probe m ?n i)"
      using pl "1.prems"(2) by (simp add: MFile_GetBlock_def)
    have upt: "[i..<?n] = i # [Suc i..<?n]" using lt by (rule upt_conv_Cons)
    show ?thesis
    proof (cases "slots (blockMap m) ! probe m ?n i = emptyBlock")
      case True
      then show ?thesis using nb lt gb conv
        by (subst findEmpty_loop.simps) (simp add: upt pr)
    next
      case False
      from "1.IH" [OF nb lt gb False "1.prems"]
      show ?thesis using nb lt gb False
        by (subst findEmpty_loop.simps) (simp add: upt pr)
    qed
  qed
qed

lemma findEmpty_spec:
  assumes "\<not> unmapped (data m)" and "\<not> unmapped (blockMap m)"
    and "length (slots (data m)) = length (slots (blockMap m))"
    and "length (slots (blockMap m)) < 2 ^ 63"
    and "0 \<le> lastFree m" and "lastFree m < 2 ^ 63"
  shows "findEmpty m =
           (case spec_findEmpty (slots (blockMap m)) (nat (lastFree m)) of
              None \<Rightarrow> Done (- 1, m)
            | Some j \<Rightarrow> Done (int j, m\<lparr>lastFree := int j\<rparr>))"
  unfolding findEmpty_def spec_findEmpty_def probeOrder_def
  by (rule findEmpty_loop_find [OF assms])

lemma store_ok_findEmpty:
  assumes "store_ok m"
  shows "findEmpty m =
           (case spec_findEmpty (slots (blockMap m)) (nat (lastFree m)) of
              None \<Rightarrow> Done (- 1, m)
            | Some j \<Rightarrow> Done (int j, m\<lparr>lastFree := int j\<rparr>))"
  proof (rule findEmpty_spec)
qed (use assms in \<open>simp_all add: store_ok_def\<close>)

lemma uint64_of_int_nat: "n < 2 ^ 63 \<Longrightarrow> uint64_of_int (int n) = n"
proof -
  assume "n < 2 ^ 63"
  then have n: "n < 2 ^ 64" by simp
  have "int n mod 2 ^ 64 = int n" using n by simp
  then show ?thesis by (simp add: uint64_of_int_def)
qed

section \<open>Well-formed stores stay well-formed\<close>

lemma list_all_update:
  "list_all P al \<Longrightarrow> P (k, v) \<Longrightarrow> list_all P (AList.update k v al)"
  by (induction al) auto

lemma list_all_delete: "list_all P al \<Longrightarrow> list_all P (AList.delete k al)"
  by (simp add: AList.delete_eq list_all_iff)

lemma int_of_uint64_nat: "n < 2 ^ 63 \<Longrightarrow> int_of_uint64 n = int n"
  by (simp add: int_of_uint64_def)

lemma loadTrie_loop_ok:
  assumes "loadTrie_loop f i t sz = Done (t', sz')"
    and "length (slots f) < 2 ^ 63"
    and "list_all (\<lambda>b. length b = BlockRefByteSize) (slots f)"
    and "list_all (entry_ok (length (slots f))) t" and "distinct (map fst t)"
  shows "list_all (entry_ok (length (slots f))) t' \<and> distinct (map fst t')"
  using assms
proof (induction f i t sz rule: loadTrie_loop.induct)
  case (1 m i t sz)
  let ?n = "length (slots m)"
  show ?case
  proof (cases "unmapped m")
    case True
    with "1.prems"(1) show ?thesis
      by (subst (asm) loadTrie_loop.simps) (simp add: MFile_NumBlocks_def)
  next
    case False
    then have nb: "MFile_NumBlocks m = Done ?n" by (simp add: MFile_NumBlocks_def)
    show ?thesis
    proof (cases "i < ?n")
      case False
      with "1.prems" nb show ?thesis
        by (subst (asm) loadTrie_loop.simps) simp
    next
      case lt: True
      have gb: "MFile_GetBlock m i = Done (slots m ! i)"
        using lt \<open>\<not> unmapped m\<close> by (simp add: MFile_GetBlock_def)
      show ?thesis
      proof (cases "slots m ! i = emptyBlock")
        case True
        with "1.prems"(1) nb lt gb have "loadTrie_loop m (i + 1) t sz = Done (t', sz')"
          by (subst (asm) loadTrie_loop.simps) simp
        from "1.IH"(1) [OF nb lt gb True this "1.prems"(2-5)] show ?thesis .
      next
        case False
        let ?t1 = "fst (Txn_Insert t (slots m ! i) (int_of_uint64 i))"
        from "1.prems"(1) nb lt gb False
        have run: "loadTrie_loop m (i + 1) ?t1 (sz + 1) = Done (t', sz')"
          by (subst (asm) loadTrie_loop.simps) simp
        have "i < 2 ^ 63" using lt "1.prems"(2) by simp
        then have iv: "int_of_uint64 i = int i" by (rule int_of_uint64_nat)
        have "length (slots m ! i) = BlockRefByteSize"
          using "1.prems"(3) lt by (simp add: list_all_length)
        then have "entry_ok ?n (slots m ! i, int_of_uint64 i)"
          using lt iv by (simp add: entry_ok_def)
        with "1.prems"(4) have a: "list_all (entry_ok ?n) ?t1"
          by (simp add: Txn_Insert_def list_all_update)
        have b: "distinct (map fst ?t1)"
          using "1.prems"(5) by (simp add: Txn_Insert_def distinct_update)
        from "1.IH"(2) [OF nb lt gb False run "1.prems"(2,3) a b] show ?thesis .
      qed
    qed
  qed
qed

lemma newMFileBlockStore_ok:
  assumes run: "newMFileBlockStore opn name cfg meta = Done (Inr m)"
    and files: "\<And>p sz blk f. opn p sz blk = Inr f \<Longrightarrow>
                  \<not> unmapped f \<and> blkSize f = blk \<and> length (slots f) < 2 ^ 63 \<and>
                  list_all (\<lambda>b. length b = blk) (slots f)"
  shows "store_ok m \<and> \<not> closed m"
proof -
  from run have bs: "BlockSize meta \<noteq> 0"
    by (auto simp: newMFileBlockStore_def split: if_splits)
  let ?dpath = "filepath_Join [DataDir cfg, ''block'', ''data-'' @ name @ ''.blk'']"
  let ?mpath = "filepath_Join [DataDir cfg, ''block'', ''map-'' @ name @ ''.blk'']"
  let ?msz = "(StorageSize cfg div BlockSize meta * BlockRefByteSize) mod 2 ^ 64"
  from run bs obtain d where d: "opn ?dpath (StorageSize cfg) (BlockSize meta) = Inr d"
    by (auto simp: newMFileBlockStore_def Let_def split: sum.splits)
  from run bs d obtain f where f: "opn ?mpath ?msz BlockRefByteSize = Inr f"
    by (auto simp: newMFileBlockStore_def Let_def split: sum.splits)
  from run bs d f obtain t sz where lt: "loadTrie f = Done (t, sz, None)"
    by (auto simp: newMFileBlockStore_def Let_def split: outcome.splits option.splits)
  from lt have loop: "loadTrie_loop f 0 iradix_New 0 = Done (t, sz)"
    by (auto simp: loadTrie_def split: outcome.splits)
  note fd = files [OF d] and ff = files [OF f]
  from run bs d f lt fd ff have m: "m = \<lparr>data = d, blockMap = f, blockTrie = t, closed = False,
      lastFree = 0, size_m = sz, dfilename = ?dpath, mfilename = ?mpath\<rparr>"
    and eq: "length (slots f) = length (slots d)"
    by (auto simp: newMFileBlockStore_def Let_def MFile_NumBlocks_def split: if_splits)
  from loadTrie_loop_ok [OF loop] ff
  have "list_all (entry_ok (length (slots f))) t \<and> distinct (map fst t)"
    by (simp add: iradix_New_def)
  with fd ff eq show ?thesis by (simp add: m store_ok_def)
qed

lemma store_ok_lastFree:
  "store_ok m \<Longrightarrow> j < length (slots (blockMap m)) \<Longrightarrow> store_ok (m\<lparr>lastFree := int j\<rparr>)"
  by (simp add: store_ok_def)

lemma findEmpty_ok:
  assumes ok: "store_ok m" and fe: "findEmpty m = Done (index, m1)"
  shows "store_ok m1 \<and> closed m1 = closed m \<and>
         (index = - 1 \<or> (0 \<le> index \<and> nat index < length (slots (blockMap m)) \<and>
                          uint64_of_int index = nat index))"
proof (cases "spec_findEmpty (slots (blockMap m)) (nat (lastFree m))")
  case None
  with store_ok_findEmpty [OF ok] fe ok show ?thesis by simp
next
  case (Some j)
  from spec_findEmpty_Some [OF Some] have j: "j < length (slots (blockMap m))" by simp
  from ok have "length (slots (blockMap m)) < 2 ^ 63" by (simp add: store_ok_def)
  with j have "j < 2 ^ 63" by simp
  then have "uint64_of_int (int j) = j" by (rule uint64_of_int_nat)
  with store_ok_findEmpty [OF ok] fe Some j store_ok_lastFree [OF ok j] show ?thesis
    by auto
qed

lemma WriteBlock_store_ok:
  assumes ok: "store_ok m" and run: "WriteBlock m s payload = Done (e, m')"
  shows "store_ok m'"
proof (cases "closed m")
  case True
  with run ok show ?thesis by (simp add: WriteBlock_def)
next
  case False
  from run False obtain index m1 where fe: "findEmpty m = Done (index, m1)"
    by (auto simp: WriteBlock_def split: outcome.splits)
  note f = findEmpty_ok [OF ok fe]
  show ?thesis
  proof (cases "index = - 1")
    case True
    with run False fe f show ?thesis by (simp add: WriteBlock_def)
  next
    case ne: False
    from findEmpty_loop_frame [OF fe [unfolded findEmpty_def]]
    have fr: "m1 = m\<lparr>lastFree := lastFree m1\<rparr>" by simp
    have bm: "blockMap m1 = blockMap m" by (subst fr) simp
    from f ne have idx: "0 \<le> index" "nat index < length (slots (blockMap m1))"
      "uint64_of_int index = nat index" and ok1: "store_ok m1"
      by (simp_all add: bm)
    have ent: "entry_ok (length (slots (blockMap m1))) (binary_Write_BlockRef s, index)"
      using idx by (simp add: entry_ok_def length_binary_Write_BlockRef BlockRefByteSize_def)
    from ok1 have t: "list_all (entry_ok (length (slots (blockMap m1))))
          (AList.update (binary_Write_BlockRef s) index (blockTrie m1))"
        "distinct (map fst (AList.update (binary_Write_BlockRef s) index (blockTrie m1)))"
      using ent by (simp_all add: store_ok_def list_all_update distinct_update)
    from run False fe ne ok1 t show ?thesis
      by (auto simp: WriteBlock_def MFile_WriteBlock_def BlockRef_ToBytes_Done Txn_Insert_def
            store_ok_def split: if_splits option.splits)
  qed
qed

lemma DeleteBlock_store_ok:
  assumes ok: "store_ok m" and run: "DeleteBlock m s = Done (e, m')"
  shows "store_ok m'"
  using assms
  by (auto simp: DeleteBlock_def findIndex_def MFile_WriteBlock_def BlockRef_ToBytes_Done
        Txn_Delete_def store_ok_def list_all_delete distinct_delete
        split: if_splits option.splits)

section \<open>Deleting the blocks of an inode\<close>


lemma set_SeekPrefix:
  "set (Iterator_SeekPrefix pre (Tree_Iterator t)) = {e \<in> set t. prefix pre (fst e)}"
  by (auto simp: Iterator_SeekPrefix_def Tree_Iterator_def)

lemma distinct_SeekPrefix:
  "distinct (map fst t) \<Longrightarrow> distinct (map fst (Iterator_SeekPrefix pre (Tree_Iterator t)))"
proof -
  assume "distinct (map fst t)"
  then have "distinct (map fst (sort_key fst t))" by (simp add: distinct_map)
  then have "distinct (filter (prefix pre) (map fst (sort_key fst t)))" by simp
  then show ?thesis
    by (simp add: Iterator_SeekPrefix_def Tree_Iterator_def filter_map comp_def)
qed

lemma clearSlots_ok:
  assumes "\<not> unmapped bm" and "blkSize bm = BlockRefByteSize"
    and "\<forall>v \<in> set vs. uint64_of_int v < length (slots bm)"
  shows "\<exists>bm'. clearSlots bm vs = Done (None, bm') \<and>
           unmapped bm' = unmapped bm \<and> blkSize bm' = blkSize bm \<and> fault bm' = fault bm \<and>
           length (slots bm') = length (slots bm) \<and>
           (\<forall>j < length (slots bm).
              slots bm' ! j = (if j \<in> uint64_of_int ` set vs then emptyBlock else slots bm ! j))"
  using assms
proof (induction vs arbitrary: bm)
  case Nil
  then show ?case by simp
next
  case (Cons v vs)
  let ?bm1 = "bm\<lparr>slots := (slots bm)[uint64_of_int v := emptyBlock]\<rparr>"
  have w: "MFile_WriteBlock bm (uint64_of_int v) emptyBlock = Done (None, ?bm1)"
    using Cons.prems by (simp add: MFile_WriteBlock_def emptyBlock_def)
  have "\<exists>bm'. clearSlots ?bm1 vs = Done (None, bm') \<and>
           unmapped bm' = unmapped ?bm1 \<and> blkSize bm' = blkSize ?bm1 \<and> fault bm' = fault ?bm1 \<and>
           length (slots bm') = length (slots ?bm1) \<and>
           (\<forall>j < length (slots ?bm1).
              slots bm' ! j = (if j \<in> uint64_of_int ` set vs then emptyBlock else slots ?bm1 ! j))"
    using Cons.prems by (intro Cons.IH) simp_all
  then obtain bm' where r: "clearSlots ?bm1 vs = Done (None, bm')"
    "unmapped bm' = unmapped bm" "blkSize bm' = blkSize bm" "fault bm' = fault bm"
    "length (slots bm') = length (slots bm)"
    "\<forall>j < length (slots bm).
        slots bm' ! j = (if j \<in> uint64_of_int ` set vs then emptyBlock else slots ?bm1 ! j)"
    by auto
  have "\<forall>j < length (slots bm).
          slots bm' ! j = (if j \<in> uint64_of_int ` set (v # vs) then emptyBlock else slots bm ! j)"
    using r(6) by (auto simp: nth_list_update)
  with r w show ?case by simp
qed

lemma store_ok_entry:
  assumes "store_ok m" and "(k, v) \<in> set (blockTrie m)"
  shows "length k = 24" and "0 \<le> v" and "v \<noteq> - 1"
    and "uint64_of_int v = nat v" and "nat v < length (slots (blockMap m))"
proof -
  from assms have e: "length k = 24" "0 \<le> v" "v < int (length (slots (blockMap m)))"
    by (auto simp: store_ok_def list_all_iff entry_ok_def BlockRefByteSize_def)
  from assms(1) have "length (slots (blockMap m)) < 2 ^ 63" by (simp add: store_ok_def)
  with e have nv: "nat v < 2 ^ 63" by linarith
  from e show "length k = 24" "0 \<le> v" "v \<noteq> - 1" "nat v < length (slots (blockMap m))"
    by simp_all
  from uint64_of_int_nat [OF nv] e(2) show "uint64_of_int v = nat v" by simp
qed

lemma findIndex_stored:
  assumes "store_ok m"
  shows "(findIndex m r \<noteq> Done (- 1)) = (binary_Write_BlockRef r \<in> fst ` set (blockTrie m))"
proof (cases "map_of (blockTrie m) (binary_Write_BlockRef r)")
  case None
  then have "binary_Write_BlockRef r \<notin> fst ` set (blockTrie m)"
    by (simp add: map_of_eq_None_iff)
  with None show ?thesis
    by (simp add: findIndex_def BlockRef_ToBytes_Done Tree_Get_def)
next
  case (Some v)
  then have mem: "(binary_Write_BlockRef r, v) \<in> set (blockTrie m)" by (rule map_of_SomeD)
  from store_ok_entry(3) [OF assms mem] Some mem show ?thesis
    by (force simp: findIndex_def BlockRef_ToBytes_Done Tree_Get_def)
qed

lemma card_inode_refs:
  assumes ok: "store_ok m"
  shows "card {r. IsINode r i \<and> findIndex m r \<noteq> Done (- 1)} =
         length (Iterator_SeekPrefix (binary_Write_INodeRef i) (Tree_Iterator (blockTrie m)))"
proof -
  let ?t = "blockTrie m"
  let ?pre = "binary_Write_INodeRef i"
  let ?found = "Iterator_SeekPrefix ?pre (Tree_Iterator ?t)"
  let ?S = "{r. IsINode r i \<and> findIndex m r \<noteq> Done (- 1)}"
  have img: "binary_Write_BlockRef ` ?S = set (map fst ?found)"
  proof (intro set_eqI iffI)
    fix k
    assume "k \<in> binary_Write_BlockRef ` ?S"
    then obtain r where r: "k = binary_Write_BlockRef r" "IsINode r i"
      "findIndex m r \<noteq> Done (- 1)" by auto
    from r(3) have "k \<in> fst ` set ?t" using findIndex_stored [OF ok] r(1) by simp
    moreover have "prefix ?pre k" using r(1,2) by (simp add: prefix_INodeRef_BlockRef)
    ultimately show "k \<in> set (map fst ?found)"
      by (auto simp: set_SeekPrefix)
  next
    fix k
    assume "k \<in> set (map fst ?found)"
    then obtain v where kv: "(k, v) \<in> set ?t" "prefix ?pre k"
      by (auto simp: set_SeekPrefix)
    from store_ok_entry(1) [OF ok kv(1)] obtain r where r: "binary_Write_BlockRef r = k"
      using binary_Write_BlockRef_surj by blast
    have "IsINode r i" using kv(2) r by (simp add: prefix_INodeRef_BlockRef [symmetric])
    moreover have "findIndex m r \<noteq> Done (- 1)"
      using findIndex_stored [OF ok, of r] kv(1) r by force
    ultimately show "k \<in> binary_Write_BlockRef ` ?S" using r by auto
  qed
  have "inj_on binary_Write_BlockRef ?S"
    by (rule inj_onI) (rule binary_Write_BlockRef_inj)
  then have "card ?S = card (binary_Write_BlockRef ` ?S)" by (simp add: card_image)
  also have "\<dots> = card (set (map fst ?found))" by (simp only: img)
  also have "\<dots> = length (map fst ?found)"
    using ok by (intro distinct_card distinct_SeekPrefix) (simp add: store_ok_def)
  finally show ?thesis by simp
qed

lemma deleteKeys_ok:
  "list_all P t \<Longrightarrow> distinct (map fst t) \<Longrightarrow>
     list_all P (deleteKeys t ks) \<and> distinct (map fst (deleteKeys t ks))"
  by (induction ks arbitrary: t)
     (simp_all add: Txn_Delete_def list_all_delete distinct_delete)

lemma DeleteINodeBlocks_store_ok:
  assumes ok: "store_ok m" and run: "DeleteINodeBlocks m i = Done (e, m')"
  shows "store_ok m'"
proof (cases "closed m")
  case True
  with run ok show ?thesis by (simp add: DeleteINodeBlocks_def)
next
  case False
  let ?found = "Iterator_SeekPrefix (binary_Write_INodeRef i) (Tree_Iterator (blockTrie m))"
  have rng: "\<forall>v \<in> set (map snd ?found). uint64_of_int v < length (slots (blockMap m))"
    using store_ok_entry(4,5) [OF ok] by (auto simp: set_SeekPrefix)
  from ok have bm: "\<not> unmapped (blockMap m)" "blkSize (blockMap m) = BlockRefByteSize"
    by (simp_all add: store_ok_def)
  from clearSlots_ok [OF bm rng] obtain bm' where
    cs: "clearSlots (blockMap m) (map snd ?found) = Done (None, bm')" and
    keep: "unmapped bm' = unmapped (blockMap m)" "blkSize bm' = blkSize (blockMap m)"
      "length (slots bm') = length (slots (blockMap m))"
    by blast
  from ok have "list_all (entry_ok (length (slots (blockMap m)))) (blockTrie m)"
    "distinct (map fst (blockTrie m))" by (simp_all add: store_ok_def)
  note dk = deleteKeys_ok [OF this, of "map fst ?found"]
  from run False cs have "m' = m\<lparr>blockMap := bm',
      size_m := size_m m - of_nat (length (map snd ?found)),
      blockTrie := deleteKeys (blockTrie m) (map fst ?found)\<rparr>"
    by (simp add: DeleteINodeBlocks_def INodeRef_ToBytes_Done Let_def)
  with ok keep dk show ?thesis by (simp add: store_ok_def)
qed

section \<open>The registry\<close>

lemma RegisterBlockStore_Done:
  "RegisterBlockStore reg name f = Done reg1 \<Longrightarrow>
     registry_lookup reg name = None \<and>
     (\<forall>k. registry_lookup reg1 k = (if k = name then Some f else registry_lookup reg k))"
  by (auto simp: RegisterBlockStore_def registry_lookup_def Let_def
        split: option.splits)

lemma registerAll_fresh:
  "registerAll reg regs = Done reg' \<Longrightarrow> n \<in> fst ` set regs \<Longrightarrow> registry_lookup reg n = None"
proof (induction regs arbitrary: reg)
  case Nil
  then show ?case by simp
next
  case (Cons nf rest)
  from Cons.prems(1) obtain reg1 where
    r1: "RegisterBlockStore reg (fst nf) (snd nf) = Done reg1" and
    r2: "registerAll reg1 rest = Done reg'"
    by (auto split: outcome.splits)
  note step = RegisterBlockStore_Done [OF r1]
  show ?case
  proof (cases "n = fst nf")
    case True
    with step show ?thesis by simp
  next
    case False
    with Cons.prems(2) have "n \<in> fst ` set rest" by auto
    from Cons.IH [OF r2 this] step False show ?thesis by simp
  qed
qed

lemma registerAll_lookup:
  "registerAll reg regs = Done reg' \<Longrightarrow>
     registry_lookup reg' k =
       (case map_of regs k of Some f \<Rightarrow> Some f | None \<Rightarrow> registry_lookup reg k)"
proof (induction regs arbitrary: reg)
  case Nil
  then show ?case by simp
next
  case (Cons nf rest)
  from Cons.prems obtain reg1 where
    r1: "RegisterBlockStore reg (fst nf) (snd nf) = Done reg1" and
    r2: "registerAll reg1 rest = Done reg'"
    by (auto split: outcome.splits)
  note step = RegisterBlockStore_Done [OF r1]
  note ih = Cons.IH [OF r2]
  show ?case
  proof (cases "k = fst nf")
    case True
    have "k \<notin> fst ` set rest"
      using registerAll_fresh [OF r2, of k] step True by auto
    then have "map_of rest k = None" by (simp add: map_of_eq_None_iff)
    with ih step True show ?thesis by (cases nf) simp
  next
    case False
    with ih step show ?thesis by (cases nf) (simp split: option.splits)
  qed
qed

lemma registerAll_distinct:
  "registerAll reg regs = Done reg' \<Longrightarrow> distinct (map fst regs)"
proof (induction regs arbitrary: reg)
  case Nil
  then show ?case by simp
next
  case (Cons nf rest)
  from Cons.prems obtain reg1 where
    r1: "RegisterBlockStore reg (fst nf) (snd nf) = Done reg1" and
    r2: "registerAll reg1 rest = Done reg'"
    by (auto split: outcome.splits)
  have "fst nf \<notin> fst ` set rest"
    using registerAll_fresh [OF r2, of "fst nf"] RegisterBlockStore_Done [OF r1] by auto
  with Cons.IH [OF r2] show ?case by simp
qed

text \<open>
  Claim C9, as the code has it. After any run of registrations that did not panic,
  creating a block store of a registered kind is the call of the constructor registered
  under that name, with the arguments given. Creating one of a kind that was never
  registered returns neither a store nor an error: the call of the missing constructor
  panics.
\<close>

theorem CreateBlockStore_registered_or_panic:
  assumes "registerAll None regs = Done reg"
  shows "((kind, f) \<in> set regs \<longrightarrow>
            CreateBlockStore reg kind name cfg gmd = f name cfg gmd) \<and>
         (kind \<notin> fst ` set regs \<longrightarrow>
            CreateBlockStore reg kind name cfg gmd = Abort)"
proof -
  note look = registerAll_lookup [OF assms, of kind]
  have dist: "distinct (map fst regs)" by (rule registerAll_distinct [OF assms])
  have "CreateBlockStore reg kind name cfg gmd = f name cfg gmd" if "(kind, f) \<in> set regs"
  proof -
    from that dist have "map_of regs kind = Some f" by simp
    with look show ?thesis by (simp add: CreateBlockStore_def)
  qed
  moreover have "CreateBlockStore reg kind name cfg gmd = Abort" if "kind \<notin> fst ` set regs"
  proof -
    from that have "map_of regs kind = None" by (simp add: map_of_eq_None_iff)
    with look show ?thesis by (simp add: CreateBlockStore_def registry_lookup_def)
  qed
  ultimately show ?thesis by blast
qed

theorem CreateBlockStore_registered_or_panic_witness:
  "registerAll None [(''mfile'', newMFileBlockStore ex_fresh)] = Done ex_registry \<and>
   CreateBlockStore ex_registry ''mfile'' ''a'' ex_cfg ex_meta = Done (Inr ex_store0) \<and>
   CreateBlockStore ex_registry ''inmem'' ''a'' ex_cfg ex_meta = Abort"
proof -
  have run: "registerAll None [(''mfile'', newMFileBlockStore ex_fresh)] = Done ex_registry"
    by (simp add: RegisterBlockStore_def ex_registry_def)
  from CreateBlockStore_registered_or_panic
         [OF run, of "''mfile''" "newMFileBlockStore ex_fresh" "''a''" ex_cfg ex_meta]
  have "CreateBlockStore ex_registry ''mfile'' ''a'' ex_cfg ex_meta = Done (Inr ex_store0)"
    by (simp add: ex_open)
  moreover
  from CreateBlockStore_registered_or_panic
         [OF run, of "''inmem''" "newMFileBlockStore ex_fresh" "''a''" ex_cfg ex_meta]
  have "CreateBlockStore ex_registry ''inmem'' ''a'' ex_cfg ex_meta = Abort"
    by simp
  ultimately show ?thesis using run by simp
qed

text \<open>
  Claim C9 as stated fails: with only \<open>mfile\<close> registered, creating a store of kind
  \<open>inmem\<close> does not return an error, it panics.
\<close>

theorem CreateBlockStore_unknown_kind_counterexample:
  "RegisterBlockStore None ''mfile'' (newMFileBlockStore ex_fresh) = Done ex_registry \<and>
   CreateBlockStore ex_registry ''inmem'' ''a'' ex_cfg ex_meta = Abort"
  by (simp add: RegisterBlockStore_def ex_registry_def CreateBlockStore_def
        registry_lookup_def)

section \<open>The codec\<close>

text \<open>
  Claim C8, at the inputs where the code departs from it. \<open>BlockRefFromBytes\<close> given
  three bytes returns the zero reference, and given 25 bytes returns the reference
  encoded by the first 24; neither call panics. (Encoding never panics either:
  \<open>BlockRef_ToBytes_Done\<close>, its length check cannot fail.)
\<close>

theorem BlockRefFromBytes_wrong_length_returns:
  "BlockRefFromBytes [1, 2, 3] = Done zeroBlockRef \<and>
   BlockRefFromBytes (ex_key2 @ [9]) = Done ex_ref2"
proof -
  have "BlockRefFromBytes [1, 2, 3] = Done zeroBlockRef"
    by (simp add: BlockRefFromBytes_def binary_Read_BlockRef_def BlockRefByteSize_def)
  moreover have "BlockRefFromBytes (ex_key2 @ [9]) = Done ex_ref2"
    unfolding ex_key2_def ex_ref2_def by code_simp
  ultimately show ?thesis by simp
qed

section \<open>Write, then get\<close>

text \<open>
  Claim C1. Whenever \<open>WriteBlock\<close> of a reference and a payload returns without an
  error, \<open>GetBlock\<close> of that reference on the resulting store returns the payload.
  A successful write already implies what the claim assumes: the store was open, a free
  slot was found, the payload had the block size and the reference was not stored before.
\<close>

theorem WriteBlock_then_GetBlock:
  assumes "WriteBlock m s payload = Done (None, m')"
  shows "GetBlock m' s = Done (Inr payload)"
proof -
  from assms have open_m: "\<not> closed m"
    by (auto simp: WriteBlock_def split: if_splits)
  from assms open_m obtain index m1 where
    fe: "findEmpty m = Done (index, m1)"
    by (auto simp: WriteBlock_def split: outcome.splits)
  from findEmpty_loop_frame [OF fe [unfolded findEmpty_def]]
  have m1: "m1 = m\<lparr>lastFree := lastFree m1\<rparr>" and
    idx: "index = - 1 \<or> (\<exists>j < length (slots (data m)). j < 2 ^ 64 \<and> index = int_of_uint64 j)"
    by blast+
  from assms open_m fe have ne: "index \<noteq> - 1"
    by (auto simp: WriteBlock_def split: if_splits)
  with idx obtain j where j: "j < length (slots (data m))" "j < 2 ^ 64" "index = int_of_uint64 j"
    by blast
  then have u: "uint64_of_int index = j" by (simp add: uint64_of_int_of_uint64)
  have d1: "data m1 = data m" "blockMap m1 = blockMap m" "closed m1 = closed m"
    by (subst m1, simp)+
  from assms open_m fe ne u d1 show ?thesis
    by (auto simp: WriteBlock_def GetBlock_def findIndex_def BlockRef_ToBytes_Done
          Txn_Insert_def Tree_Get_def MFile_WriteBlock_def MFile_GetBlock_def update_conv'
          split: if_splits outcome.splits option.splits prod.splits)
qed

theorem WriteBlock_then_GetBlock_witness:
  "WriteBlock ex_store0 ex_ref [65, 66] = Done (None, ex_store1) \<and>
   GetBlock ex_store1 ex_ref = Done (Inr [65, 66])"
  using WriteBlock_then_GetBlock [OF ex_write1] ex_write1 by simp

section \<open>The free-slot allocator\<close>

text \<open>
  Claim C6. For every state of the map file and every hint that is not negative (the
  hint starts at 0 and is only ever set to a slot that the search returned; Go's
  \<open>int\<close> bounds it by \<open>2 ^ 63\<close>), on mapped files of equal slot count below
  \<open>2 ^ 63\<close>: \<open>findEmpty\<close> returns the first slot, in the order of the rotating probe
  that starts one past the hint and wraps modulo the slot count, that holds 24 zero
  bytes, and sets the hint to it; it returns \<open>-1\<close> and leaves the store as it was
  when the probe finds none; and it returns \<open>-1\<close> exactly when no slot of the map
  file is all zero.
\<close>

theorem findEmpty_rotating_probe:
  assumes "\<not> unmapped (data m)" and "\<not> unmapped (blockMap m)"
    and "length (slots (data m)) = length (slots (blockMap m))"
    and "length (slots (blockMap m)) < 2 ^ 63"
    and "0 \<le> lastFree m" and "lastFree m < 2 ^ 63"
  shows "findEmpty m =
           (case spec_findEmpty (slots (blockMap m)) (nat (lastFree m)) of
              None \<Rightarrow> Done (- 1, m)
            | Some j \<Rightarrow> Done (int j, m\<lparr>lastFree := int j\<rparr>)) \<and>
         ((\<exists>m'. findEmpty m = Done (- 1, m')) = (emptyBlock \<notin> set (slots (blockMap m))))"
proof -
  note eq = findEmpty_spec [OF assms]
  have iff: "(\<exists>m'. findEmpty m = Done (- 1, m')) =
        (spec_findEmpty (slots (blockMap m)) (nat (lastFree m)) = None)"
    by (simp add: eq split: option.splits)
  show ?thesis
  proof (intro conjI)
    show "findEmpty m =
           (case spec_findEmpty (slots (blockMap m)) (nat (lastFree m)) of
              None \<Rightarrow> Done (- 1, m)
            | Some j \<Rightarrow> Done (int j, m\<lparr>lastFree := int j\<rparr>))"
      by (rule eq)
    show "(\<exists>m'. findEmpty m = Done (- 1, m')) = (emptyBlock \<notin> set (slots (blockMap m)))"
      unfolding iff by (rule spec_findEmpty_None)
  qed
qed

theorem findEmpty_rotating_probe_witness:
  "probeOrder 1 2 = [0, 1] \<and>
   findEmpty ex_store1 = Done (0, ex_store1\<lparr>lastFree := 0\<rparr>) \<and>
   findEmpty ex_store2 = Done (- 1, ex_store2)"
proof -
  have po: "probeOrder 1 2 = [0, 1]"
    by code_simp
  have po': "probeOrder (Suc 0) (Suc (Suc 0)) = [0, 1]" "probeOrder 0 (Suc (Suc 0)) = [1, 0]"
    by code_simp+
  have s1: "spec_findEmpty (slots (blockMap ex_store1)) (nat (lastFree ex_store1)) = Some 0"
    by (simp add: spec_findEmpty_def ex_defs po' ex_key_facts)
  have s2: "spec_findEmpty (slots (blockMap ex_store2)) (nat (lastFree ex_store2)) = None"
    by (simp add: spec_findEmpty_def ex_defs po' ex_key_facts)
  have "findEmpty ex_store1 = Done (0, ex_store1\<lparr>lastFree := 0\<rparr>)"
    using findEmpty_rotating_probe [of ex_store1] s1 by (simp add: ex_defs)
  moreover have "findEmpty ex_store2 = Done (- 1, ex_store2)"
    using findEmpty_rotating_probe [of ex_store2] s2 by (simp add: ex_defs)
  ultimately show ?thesis using po by simp
qed

section \<open>Writing a reference that is already stored\<close>

text \<open>
  Claim C3, as the code has it. On a well-formed open store with a free slot, writing a
  payload of the block size under a reference whose key the trie already holds returns
  the ordinary error \<open>mfile: block already existed?\<close> to the caller; the process does
  not abort, and the trie and the used-block counter stay as they were.
\<close>

theorem WriteBlock_existing_key_returns_error:
  assumes ok: "store_ok m" and op: "\<not> closed m"
    and stored: "Tree_Get (blockTrie m) (binary_Write_BlockRef s) = Some v"
    and len: "length payload = blkSize (data m)"
    and free: "emptyBlock \<in> set (slots (blockMap m))"
  shows "\<exists>m'. WriteBlock m s payload =
                 Done (Some (ErrorsNew ''mfile: block already existed?''), m') \<and>
              blockTrie m' = blockTrie m \<and> size_m m' = size_m m"
proof -
  from free obtain j where sf: "spec_findEmpty (slots (blockMap m)) (nat (lastFree m)) = Some j"
    using spec_findEmpty_None [of "slots (blockMap m)" "nat (lastFree m)"] by auto
  from spec_findEmpty_Some [OF sf] have j: "j < length (slots (blockMap m))" by simp
  from ok have n63: "length (slots (blockMap m)) < 2 ^ 63" by (simp add: store_ok_def)
  with j have "j < 2 ^ 63" by simp
  then have u: "uint64_of_int (int j) = j" by (rule uint64_of_int_nat)
  have fe: "findEmpty m = Done (int j, m\<lparr>lastFree := int j\<rparr>)"
    using store_ok_findEmpty [OF ok] sf by simp
  from ok have wf: "\<not> unmapped (data m)" "\<not> unmapped (blockMap m)"
    "blkSize (blockMap m) = 24" "length (slots (data m)) = length (slots (blockMap m))"
    by (simp_all add: store_ok_def BlockRefByteSize_def)
  show ?thesis
    using op fe u j wf len stored
    by (simp add: WriteBlock_def MFile_WriteBlock_def BlockRef_ToBytes_Done
          length_binary_Write_BlockRef Txn_Insert_def Tree_Get_def)
qed

theorem WriteBlock_existing_key_returns_error_witness:
  "store_ok ex_store1 \<and> Tree_Get (blockTrie ex_store1) (binary_Write_BlockRef ex_ref) = Some 1 \<and>
   (\<exists>m'. WriteBlock ex_store1 ex_ref [67, 68] =
           Done (Some (ErrorsNew ''mfile: block already existed?''), m') \<and>
         blockTrie m' = blockTrie ex_store1 \<and> size_m m' = size_m ex_store1)"
proof -
  have st: "Tree_Get (blockTrie ex_store1) (binary_Write_BlockRef ex_ref) = Some 1"
    by (simp add: Tree_Get_def ex_key_eq ex_defs)
  have op: "\<not> closed ex_store1" and len: "length [67, 68 :: byte] = blkSize (data ex_store1)"
    and free: "emptyBlock \<in> set (slots (blockMap ex_store1))"
    by (simp_all add: ex_defs)
  from WriteBlock_existing_key_returns_error [OF ex_store1_ok op st len free] ex_store1_ok st
  show ?thesis by simp
qed

text \<open>
  Claim C3 as stated fails: the second write of \<open>ex_ref\<close> returns (with an error value),
  it does not abort.
\<close>

theorem WriteBlock_existing_key_counterexample:
  "Txn_Insert (blockTrie ex_store1) (binary_Write_BlockRef ex_ref) 0 = ([(ex_key, 0)], True) \<and>
   WriteBlock ex_store1 ex_ref [67, 68] =
     Done (Some (ErrorsNew ''mfile: block already existed?''), ex_store_dup)"
  using ex_write_dup by (simp add: Txn_Insert_def ex_key_eq ex_defs)

text \<open>
  Claim C2, at the input where the code departs from it. \<open>ex_store1\<close> satisfies I4 and
  I5. Writing \<open>ex_ref\<close>, which it already stores, returns an error after the free map
  slot has been given the key a second time: in the store left behind two slots hold
  the same nonzero key (I5 fails) and the counter is 1 with two nonzero slots (I4 fails).
\<close>

theorem WriteBlock_duplicate_breaks_I4_I5:
  "I4 ex_store1 \<and> I5 ex_store1 \<and>
   WriteBlock ex_store1 ex_ref [67, 68] =
     Done (Some (ErrorsNew ''mfile: block already existed?''), ex_store_dup) \<and>
   \<not> I4 ex_store_dup \<and> \<not> I5 ex_store_dup"
proof -
  have "I4 ex_store1" "I5 ex_store1"
    by (simp_all add: I4_def I5_def nonzeroSlots_def ex_defs ex_key_facts)
  moreover have "\<not> I4 ex_store_dup" "\<not> I5 ex_store_dup"
    by (simp_all add: I4_def I5_def nonzeroSlots_def ex_store_dup_def ex_defs ex_key_facts)
  ultimately show ?thesis using ex_write_dup by simp
qed

section \<open>Opening a store on a map file with a repeated key\<close>

text \<open>
  Claim C4, at the input where the code departs from it. The map file left behind by
  the second write of \<open>ex_ref\<close> holds the key of \<open>ex_ref\<close> in both slots. Opening a
  store on it does not fail: \<open>loadTrie\<close> never looks at what \<open>Insert\<close> reports, so
  \<open>newMFileBlockStore\<close> returns a store whose trie maps the key to the later slot and
  whose counter is 2, and in which I5 does not hold.
\<close>

theorem newMFileBlockStore_duplicate_keys_opens:
  "newMFileBlockStore ex_reopen ''a'' ex_cfg ex_meta = Done (Inr ex_store_reopened) \<and>
   slots (blockMap ex_store_reopened) = [ex_key, ex_key] \<and>
   blockTrie ex_store_reopened = [(ex_key, 1)] \<and>
   size_m ex_store_reopened = 2 \<and>
   \<not> I5 ex_store_reopened"
  using ex_reopen_dup
  by (simp add: ex_store_reopened_def ex_defs I5_def nonzeroSlots_def ex_key_facts)

section \<open>After close\<close>

text \<open>
  Claim C5, as the code has it. After \<open>Close\<close> has returned without an error,
  \<open>GetBlock\<close>, \<open>WriteBlock\<close>, \<open>DeleteBlock\<close> and \<open>DeleteINodeBlocks\<close> fail with
  \<open>ErrClosed\<close> and leave the store as it is. \<open>UsedBlocks\<close> still returns the counter
  and \<open>BlockIterator\<close> still returns an iterator over the trie, both as before the
  close.
\<close>

theorem Close_then_operations:
  assumes "Close m = Done (None, m')"
  shows "GetBlock m' s = Done (Inl ErrClosed) \<and>
         WriteBlock m' s payload = Done (Some ErrClosed, m') \<and>
         DeleteBlock m' s = Done (Some ErrClosed, m') \<and>
         DeleteINodeBlocks m' i = Done (Some ErrClosed, m') \<and>
         UsedBlocks m' = UsedBlocks m \<and>
         BlockIterator m' = BlockIterator m"
proof -
  from assms have "closed m' \<and> size_m m' = size_m m \<and> blockTrie m' = blockTrie m"
    by (auto simp: Close_def close_def split: outcome.splits option.splits prod.splits)
  then show ?thesis
    by (simp add: GetBlock_def WriteBlock_def DeleteBlock_def DeleteINodeBlocks_def
          UsedBlocks_def BlockIterator_def)
qed

theorem Close_then_operations_witness:
  "Close ex_store1 = Done (None, ex_closed) \<and>
   GetBlock ex_closed ex_ref = Done (Inl ErrClosed) \<and>
   WriteBlock ex_closed ex_ref2 [67, 68] = Done (Some ErrClosed, ex_closed) \<and>
   DeleteBlock ex_closed ex_ref = Done (Some ErrClosed, ex_closed) \<and>
   DeleteINodeBlocks ex_closed ex_inode = Done (Some ErrClosed, ex_closed) \<and>
   UsedBlocks ex_closed = UsedBlocks ex_store1 \<and>
   BlockIterator ex_closed = BlockIterator ex_store1"
  using Close_then_operations [OF ex_close, of ex_ref "[67, 68]" ex_inode]
    Close_then_operations [OF ex_close, of ex_ref2 "[67, 68]" ex_inode] ex_close
  by simp

text \<open>
  Claim C5 as stated fails: on the closed store \<open>UsedBlocks\<close> returns 1, and
  \<open>BlockIterator\<close> returns an iterator that carries no error and yields \<open>ex_ref\<close>.
\<close>

theorem Close_then_UsedBlocks_counterexample:
  "Close ex_store1 = Done (None, ex_closed) \<and>
   UsedBlocks ex_closed = 1 \<and>
   i_err (BlockIterator ex_closed) = None \<and>
   fst (mfileIterator_Next (BlockIterator ex_closed)) = True \<and>
   mfileIterator_BlockRef (snd (mfileIterator_Next (BlockIterator ex_closed))) = Done ex_ref"
proof -
  have "BlockRefFromBytes ex_key = Done ex_ref"
    unfolding ex_key_def ex_ref_def by code_simp
  then show ?thesis using ex_close
    by (simp add: UsedBlocks_def BlockIterator_def mfileIterator_Next_def
          mfileIterator_BlockRef_def Tree_Iterator_def ex_closed_def ex_defs)
qed

section \<open>Delete-all-for-inode\<close>



text \<open>
  Claim C10. On a well-formed open store that stores no block reference of the given
  inode, \<open>DeleteINodeBlocks\<close> returns without an error and leaves the store, with its
  trie, map file and counter, exactly as it was; \<open>DeleteBlock\<close> of any one reference
  of that inode returns \<open>ErrBlockNotExist\<close> instead.
\<close>

theorem DeleteINodeBlocks_no_match:
  assumes ok: "store_ok m" and op: "\<not> closed m"
    and none: "\<forall>r. IsINode r i \<longrightarrow> findIndex m r = Done (- 1)"
  shows "DeleteINodeBlocks m i = Done (None, m) \<and>
         (\<forall>r. IsINode r i \<longrightarrow> DeleteBlock m r = Done (Some ErrBlockNotExist, m))"
proof -
  have "{r. IsINode r i \<and> findIndex m r \<noteq> Done (- 1)} = {}"
    using none by auto
  then have "card {r. IsINode r i \<and> findIndex m r \<noteq> Done (- 1)} = 0"
    by (simp only: card.empty)
  then have "Iterator_SeekPrefix (binary_Write_INodeRef i) (Tree_Iterator (blockTrie m)) = []"
    by (simp add: card_inode_refs [OF ok])
  then have "DeleteINodeBlocks m i = Done (None, m)"
    using op by (simp add: DeleteINodeBlocks_def INodeRef_ToBytes_Done)
  moreover have "DeleteBlock m r = Done (Some ErrBlockNotExist, m)" if "IsINode r i" for r
    using that none op by (simp add: DeleteBlock_def)
  ultimately show ?thesis by blast
qed

theorem DeleteINodeBlocks_no_match_witness:
  "store_ok ex_store2 \<and>
   DeleteINodeBlocks ex_store2 ex_inode3 = Done (None, ex_store2) \<and>
   DeleteBlock ex_store2 ex_ref3 = Done (Some ErrBlockNotExist, ex_store2)"
proof -
  have op: "\<not> closed ex_store2" by (simp add: ex_defs)
  have none: "\<forall>r. IsINode r ex_inode3 \<longrightarrow> findIndex ex_store2 r = Done (- 1)"
  proof (intro allI impI)
    fix r :: BlockRef
    assume r: "IsINode r ex_inode3"
    have "binary_Write_BlockRef r \<noteq> binary_Write_BlockRef ex_ref"
      using r binary_Write_BlockRef_inj [of r ex_ref]
      by (auto simp: IsINode_def ex_inode3_def ex_ref_def)
    moreover have "binary_Write_BlockRef r \<noteq> binary_Write_BlockRef ex_ref2"
      using r binary_Write_BlockRef_inj [of r ex_ref2]
      by (auto simp: IsINode_def ex_inode3_def ex_ref2_def)
    ultimately show "findIndex ex_store2 r = Done (- 1)"
      by (simp add: findIndex_def BlockRef_ToBytes_Done Tree_Get_def ex_defs
            ex_key_eq [symmetric] ex_key2_eq [symmetric])
  qed
  have is3: "IsINode ex_ref3 ex_inode3"
    by (simp add: IsINode_def ex_ref3_def ex_inode3_def)
  from DeleteINodeBlocks_no_match [OF ex_store2_ok op none] is3 ex_store2_ok
  show ?thesis by simp
qed


end
